theory Spec2Isabelle
  imports Main "HOL-Library.Sublist" "HOL-Library.Word"
begin

section \<open>The file system the packager reads\<close>

text \<open>
  \<^verbatim>\<open>package.py\<close> reads the disk through two library calls only: \<^verbatim>\<open>os.walk(path)\<close>
  and \<^verbatim>\<open>ZipFile.write(path, arcname)\<close>. What a path names on disk is a regular file
  with its bytes, or a directory with its listing. A directory's listing is kept as an
  association list, in the order in which the operating system enumerates it (this is
  the order in which \<^verbatim>\<open>os.walk\<close> hands out \<^verbatim>\<open>dirnames\<close> and \<^verbatim>\<open>filenames\<close>).

  Symbolic links, special files and unreadable entries are not part of the model: every
  entry of a listing is a readable regular file or a readable directory.

  The type \<open>fs\<close> is the answer of the operating system to a path string that the script
  builds at top level: \<open>None\<close> when nothing exists there. Below such a path the model
  follows the tree: the path \<^verbatim>\<open>dirpath + "/" + name\<close> names the entry \<open>name\<close> of the
  directory at \<^verbatim>\<open>dirpath\<close> (\<open>map_of\<close> on the listing).
\<close>

type_synonym bytes = "8 word list"

datatype node = File bytes | Dir "(string \<times> node) list"

type_synonym fs = "string \<Rightarrow> node option"

definition is_dir :: "node \<Rightarrow> bool" where
  "is_dir n = (case n of Dir _ \<Rightarrow> True | File _ \<Rightarrow> False)"

text \<open>
  \<^verbatim>\<open>os.walk\<close> splits the listing of the directory it visits into the names of the
  directories (\<^verbatim>\<open>dirnames\<close>) and all other names (\<^verbatim>\<open>filenames\<close>).
\<close>

definition dirnames_of :: "(string \<times> node) list \<Rightarrow> string list" where
  "dirnames_of es = map fst (filter (\<lambda>e. is_dir (snd e)) es)"

definition filenames_of :: "(string \<times> node) list \<Rightarrow> string list" where
  "filenames_of es = map fst (filter (\<lambda>e. \<not> is_dir (snd e)) es)"

section \<open>Program state and errors\<close>

text \<open>
  The script has one global, \<^verbatim>\<open>output_file\<close> (line 9), the archive opened for writing
  with mode \<^verbatim>\<open>"w"\<close>, which starts it empty. The state holds the entries written so far
  in the order of writing (an entry is its name in the archive and its bytes), whether
  the handle has been closed, and the lines printed so far.

  An exception is a value of type \<open>error\<close>; a function that may raise returns
  \<open>error + state\<close>, and \<open>Inl\<close> ends the run, since the script catches nothing.
\<close>

datatype error = FileNotFoundError string | ValueError string

record state =
  output_file :: "(string \<times> bytes) list"
  closed :: bool
  stdout :: "string list"

definition initial_state :: state where
  "initial_state = \<lparr>output_file = [], closed = False, stdout = []\<rparr>"

definition print :: "string \<Rightarrow> state \<Rightarrow> state" where
  "print line st = st\<lparr>stdout := stdout st @ [line]\<rparr>"

text \<open>
  \<^verbatim>\<open>output_file.write(filename, arcname)\<close>. The library refuses to write to a closed
  archive (\<^verbatim>\<open>ValueError\<close>), then looks \<^verbatim>\<open>filename\<close> up on disk
  (\<^verbatim>\<open>FileNotFoundError\<close> when nothing is there), then appends one entry: for a regular
  file the entry \<^verbatim>\<open>arcname\<close> with the file's bytes, for a directory the empty entry
  \<^verbatim>\<open>arcname + "/"\<close>. An entry whose name is already in the archive is appended all the
  same. The first argument of \<open>output_file_write\<close> is what \<^verbatim>\<open>filename\<close> names on disk.

  The entry name is the \<^verbatim>\<open>arcname\<close> the script passes. The library's own clean-up of
  that string (it drops leading separators and redundant \<^verbatim>\<open>.\<close>, \<^verbatim>\<open>..\<close> and empty
  components) is outside the model; it changes none of the names that the script builds
  from its fixed list and from directory listings.
\<close>

fun zip_entry :: "node \<Rightarrow> string \<Rightarrow> string \<times> bytes" where
  "zip_entry (File data) arcname = (arcname, data)"
| "zip_entry (Dir es) arcname = (arcname @ ''/'', [])"

definition output_file_write :: "node option \<Rightarrow> string \<Rightarrow> string \<Rightarrow> state \<Rightarrow> error + state" where
  "output_file_write on_disk filename arcname st =
     (if closed st then Inl (ValueError ''Attempt to write to ZIP archive that was already closed'')
      else case on_disk of
        None \<Rightarrow> Inl (FileNotFoundError filename)
      | Some n \<Rightarrow> Inr (st\<lparr>output_file := output_file st @ [zip_entry n arcname]\<rparr>))"

section \<open>The packager\<close>

subsection \<open>The loop over \<^verbatim>\<open>dirnames\<close> (lines 13 to 19)\<close>

text \<open>
  \<^verbatim>\<open>
  for dirname in dirnames:
      source = dirpath + "/" + dirname
      target = target_dir_name + "/" + dirname
      print(...)
      add_dir_to_target_dir(source, target)

      dirnames[:] = []
  \<close>
  The statement \<^verbatim>\<open>dirnames[:] = []\<close> is indented into the loop body, so it empties, in
  place, the very list the loop iterates over. A Python list iterator keeps an index
  \<open>i\<close> and stops as soon as \<open>i\<close> is no longer below the current length of the list.
  \<open>for_dirnames body i dirnames st\<close> is that iteration: \<open>body\<close> stands for lines 14 to 17
  (it may raise), and the recursive call continues at index \<open>i + 1\<close> on the emptied list.
  The function returns the list as the loop leaves it, together with the state.
\<close>

function for_dirnames ::
  "(string \<Rightarrow> 's \<Rightarrow> error + 's) \<Rightarrow> nat \<Rightarrow> string list \<Rightarrow> 's \<Rightarrow> error + (string list \<times> 's)" where
  "for_dirnames body i dirnames st =
     (if i < length dirnames then
        (case body (dirnames ! i) st of
           Inl e \<Rightarrow> Inl e
         | Inr st' \<Rightarrow> for_dirnames body (Suc i) [] st')
      else Inr (dirnames, st))"
  by pat_completeness auto
termination
  by (relation "measure (\<lambda>(body, i, dirnames, st). length dirnames - i)") auto

declare for_dirnames.simps [simp del]

text \<open>
  Started at index 0 the loop runs its body for the first name only and leaves the list
  empty; the walker, which would descend into the names left in \<^verbatim>\<open>dirnames\<close> once the
  body of the outer loop is done, therefore yields nothing after the first directory.
\<close>

lemma for_dirnames_first:
  "for_dirnames body 0 dirnames st =
     (case dirnames of
        [] \<Rightarrow> Inr ([], st)
      | dirname # _ \<Rightarrow> (case body dirname st of Inl e \<Rightarrow> Inl e | Inr st' \<Rightarrow> Inr ([], st')))"
  by (cases dirnames) (auto simp: for_dirnames.simps split: sum.splits)

lemma for_dirnames_cong [fundef_cong]:
  assumes "dirnames = dirnames'" "st = st'" "i = i'"
    and "\<And>d s. d \<in> set dirnames' \<Longrightarrow> body d s = body' d s"
  shows "for_dirnames body i dirnames st = for_dirnames body' i' dirnames' st'"
  using assms by (auto simp: for_dirnames.simps split: sum.splits)

subsection \<open>The loop over \<^verbatim>\<open>filenames\<close> (lines 21 to 25)\<close>

definition quoted :: "string \<Rightarrow> string" where
  "quoted s = [CHR 0x22] @ s @ [CHR 0x22]"

fun for_filenames ::
  "(string \<times> node) list \<Rightarrow> string \<Rightarrow> string \<Rightarrow> string list \<Rightarrow> state \<Rightarrow> error + state" where
  "for_filenames es dirpath target_dir_name [] st = Inr st"
| "for_filenames es dirpath target_dir_name (filename # filenames) st =
     (let source = dirpath @ ''/'' @ filename;
          target = target_dir_name @ ''/'' @ filename;
          st1 = print (''Writing file: '' @ quoted source @ '' -> '' @ quoted target) st
      in case output_file_write (map_of es filename) source target st1 of
           Inl e \<Rightarrow> Inl e
         | Inr st2 \<Rightarrow> for_filenames es dirpath target_dir_name filenames st2)"

subsection \<open>\<^verbatim>\<open>add_dir_to_target_dir\<close> (lines 11 to 25)\<close>

text \<open>
  The first argument is what \<^verbatim>\<open>source_dir_name\<close> names on disk. \<^verbatim>\<open>os.walk\<close> is called
  without an error handler: when the path does not exist or is not a directory, it
  swallows the error of the listing and yields nothing, so the loop body never runs and
  the call returns normally. For a directory it first yields the directory itself, with
  \<^verbatim>\<open>dirpath = source_dir_name\<close>; nothing more follows, as \<open>for_dirnames\<close> leaves
  \<^verbatim>\<open>dirnames\<close> empty.
\<close>

lemma size_child: "map_of es k = Some c \<Longrightarrow> size c < size (Dir es)"
  by (induction es) (auto split: if_splits)

function add_dir_to_target_dir :: "node option \<Rightarrow> string \<Rightarrow> string \<Rightarrow> state \<Rightarrow> error + state" where
  "add_dir_to_target_dir (Some (Dir es)) source_dir_name target_dir_name st =
     (case for_dirnames
             (\<lambda>dirname s.
                let source = source_dir_name @ ''/'' @ dirname;
                    target = target_dir_name @ ''/'' @ dirname;
                    s1 = print (''Writing dir: '' @ quoted source @ '' -> '' @ quoted target) s
                in add_dir_to_target_dir (map_of es dirname) source target s1)
             0 (dirnames_of es) st of
        Inl e \<Rightarrow> Inl e
      | Inr (dirnames, st1) \<Rightarrow>
          for_filenames es source_dir_name target_dir_name (filenames_of es) st1)"
| "add_dir_to_target_dir (Some (File v)) source_dir_name target_dir_name st = Inr st"
| "add_dir_to_target_dir None source_dir_name target_dir_name st = Inr st"
  by pat_completeness auto
termination
  apply (relation "measure (\<lambda>(n, s, t, st). case n of None \<Rightarrow> 0 | Some x \<Rightarrow> size x)")
   apply simp
  apply (auto split: option.splits dest: size_child)
  done

subsection \<open>\<^verbatim>\<open>add_dir\<close>, \<^verbatim>\<open>add_file\<close> and the module body (lines 27 to 55)\<close>

text \<open>
  \<open>self_dirname\<close> is the global of line 5, \<^verbatim>\<open>os.path.dirname(__file__)\<close>; the model
  takes the string as a parameter.
\<close>

definition add_dir :: "string \<Rightarrow> fs \<Rightarrow> string \<Rightarrow> state \<Rightarrow> error + state" where
  "add_dir self_dirname fs relative_dir_name st =
     (let source_dir_name = self_dirname @ ''/'' @ relative_dir_name
      in add_dir_to_target_dir (fs source_dir_name) source_dir_name relative_dir_name st)"

definition add_file :: "string \<Rightarrow> fs \<Rightarrow> string \<Rightarrow> state \<Rightarrow> error + state" where
  "add_file self_dirname fs relative_file_name st =
     (let source_file_name = self_dirname @ ''/'' @ relative_file_name
      in output_file_write (fs source_file_name) source_file_name relative_file_name st)"

text \<open>
  Lines 39 to 55 are seventeen calls in a row. They are kept as the list of the calls, run
  in order; the first exception ends the run.
\<close>

datatype call = AddDir string | AddFile string

definition module_body :: "call list" where
  "module_body =
    [AddDir ''archive'',
     AddDir ''background'',
     AddDir ''deps/dexie/dist'',
     AddFile ''deps/dexie/LICENSE'',
     AddFile ''deps/jexl/jexl.bundle.js'',
     AddFile ''deps/jexl/LICENSE.txt'',
     AddFile ''deps/mvp/mvp.css'',
     AddFile ''deps/mvp/LICENSE'',
     AddFile ''deps/open-color/open-color.css'',
     AddFile ''deps/open-color/LICENSE'',
     AddDir ''icons'',
     AddDir ''images'',
     AddDir ''popup'',
     AddDir ''settings'',
     AddDir ''shared'',
     AddDir ''LICENSE'',
     AddFile ''manifest.json'']"

fun exec_call :: "string \<Rightarrow> fs \<Rightarrow> call \<Rightarrow> state \<Rightarrow> error + state" where
  "exec_call self_dirname fs (AddDir d) st = add_dir self_dirname fs d st"
| "exec_call self_dirname fs (AddFile f) st = add_file self_dirname fs f st"

fun exec_calls :: "string \<Rightarrow> fs \<Rightarrow> call list \<Rightarrow> state \<Rightarrow> error + state" where
  "exec_calls self_dirname fs [] st = Inr st"
| "exec_calls self_dirname fs (c # cs) st =
     (case exec_call self_dirname fs c st of
        Inl e \<Rightarrow> Inl e
      | Inr st' \<Rightarrow> exec_calls self_dirname fs cs st')"

fun call_path :: "call \<Rightarrow> string" where
  "call_path (AddDir d) = d"
| "call_path (AddFile f) = f"

text \<open>
  The whole run. Lines 7 and 9 create the directory \<^verbatim>\<open>build\<close> and open
  \<^verbatim>\<open>build/phantabular.xpi\<close> for writing, which leaves an empty, open archive; then the
  calls run. That the output location may be unwritable is outside the model.
\<close>

definition package :: "string \<Rightarrow> fs \<Rightarrow> error + state" where
  "package self_dirname fs = exec_calls self_dirname fs module_body initial_state"

section \<open>Vocabulary of the properties\<close>

text \<open>
  \<open>resolve\<close> follows a list of names down a tree; \<open>join_path\<close> appends the names to a
  path string, each after a \<^verbatim>\<open>/\<close>. \<open>entries\<close> reads the archive off a result (empty
  when the run raised).
\<close>

fun resolve :: "node option \<Rightarrow> string list \<Rightarrow> node option" where
  "resolve on_disk [] = on_disk"
| "resolve (Some (Dir es)) (c # cs) = resolve (map_of es c) cs"
| "resolve (Some (File v)) (c # cs) = None"
| "resolve None (c # cs) = None"

fun join_path :: "string \<Rightarrow> string list \<Rightarrow> string" where
  "join_path base [] = base"
| "join_path base (c # cs) = join_path (base @ ''/'' @ c) cs"

definition entries :: "error + state \<Rightarrow> (string \<times> bytes) list" where
  "entries r = (case r of Inl e \<Rightarrow> [] | Inr st \<Rightarrow> output_file st)"

text \<open>
  What every directory tree on a real disk satisfies: within one directory no name
  occurs twice, and no name contains the separator.
\<close>

fun wf_node :: "node \<Rightarrow> bool" where
  "wf_node (File v) = True"
| "wf_node (Dir es) =
     (distinct (map fst es) \<and> (\<forall>e \<in> set es. CHR ''/'' \<notin> set (fst e) \<and> wf_node (snd e)))"

definition wf_on_disk :: "node option \<Rightarrow> bool" where
  "wf_on_disk on_disk = (case on_disk of None \<Rightarrow> True | Some n \<Rightarrow> wf_node n)"

text \<open>
  The specification's reading of \<^verbatim>\<open>add_directory\<close>, in the specification's words:
  every regular file reachable by recursive descent, at the corresponding path under the
  target directory. It is the yardstick for claim C1, not a translation of the code.
\<close>

fun reachable_files :: "node \<Rightarrow> string \<Rightarrow> (string \<times> bytes) list" where
  "reachable_files (File data) path = [(path, data)]"
| "reachable_files (Dir es) path =
     concat (map (\<lambda>e. reachable_files (snd e) (path @ ''/'' @ fst e)) es)"

text \<open>
  \<open>written_from on_disk t e\<close>: the entry \<open>e\<close> is what \<^verbatim>\<open>write\<close> makes of some node
  strictly below \<open>on_disk\<close>, under the name that extends \<open>t\<close> by the names on the way
  down. \<open>written_by\<close> is the same for one call of the module body.
\<close>

definition written_from :: "node option \<Rightarrow> string \<Rightarrow> string \<times> bytes \<Rightarrow> bool" where
  "written_from on_disk t e \<longleftrightarrow>
     (\<exists>comps n. comps \<noteq> [] \<and> resolve on_disk comps = Some n \<and> e = zip_entry n (join_path t comps))"

definition written_by :: "string \<Rightarrow> fs \<Rightarrow> call \<Rightarrow> string \<times> bytes \<Rightarrow> bool" where
  "written_by self_dirname fs c e \<longleftrightarrow>
     (\<exists>comps n. (case c of AddDir d \<Rightarrow> comps \<noteq> [] | AddFile f \<Rightarrow> comps = []) \<and>
        resolve (fs (self_dirname @ ''/'' @ call_path c)) comps = Some n \<and>
        e = zip_entry n (join_path (call_path c) comps))"

text \<open>
  The entry names a call can produce, and when two calls cannot produce the same name.
\<close>

fun owned :: "call \<Rightarrow> string \<Rightarrow> bool" where
  "owned (AddDir d) name = prefix (d @ ''/'') name"
| "owned (AddFile f) name = (name = f \<or> name = f @ ''/'')"

fun apart :: "call \<Rightarrow> call \<Rightarrow> bool" where
  "apart (AddDir d) (AddDir d') =
     (\<not> prefix (d @ ''/'') (d' @ ''/'') \<and> \<not> prefix (d' @ ''/'') (d @ ''/''))"
| "apart (AddDir d) (AddFile f) = (\<not> prefix (d @ ''/'') f \<and> \<not> prefix (d @ ''/'') (f @ ''/''))"
| "apart (AddFile f) (AddDir d) = (\<not> prefix (d @ ''/'') f \<and> \<not> prefix (d @ ''/'') (f @ ''/''))"
| "apart (AddFile f) (AddFile f') = (f \<noteq> f' \<and> f \<noteq> f' @ ''/'' \<and> f @ ''/'' \<noteq> f')"

fun pairwise_apart :: "call list \<Rightarrow> bool" where
  "pairwise_apart [] = True"
| "pairwise_apart (c # cs) = ((\<forall>c' \<in> set cs. apart c c') \<and> pairwise_apart cs)"

subsection \<open>Two concrete disks\<close>

text \<open>
  A checkout at \<^verbatim>\<open>/repo\<close> in which every path of the module body exists
  (\<^verbatim>\<open>LICENSE\<close> as a regular file), and a directory with two subdirectories.
\<close>

definition example_fs :: fs where
  "example_fs = map_of
    [(''/repo/archive'', Dir [(''a.js'', File [1]), (''sub'', Dir [(''b.js'', File [2])])]),
     (''/repo/background'', Dir [(''background.js'', File [3])]),
     (''/repo/deps/dexie/dist'', Dir [(''dexie.js'', File [4])]),
     (''/repo/deps/dexie/LICENSE'', File [5]),
     (''/repo/deps/jexl/jexl.bundle.js'', File [6]),
     (''/repo/deps/jexl/LICENSE.txt'', File [7]),
     (''/repo/deps/mvp/mvp.css'', File [8]),
     (''/repo/deps/mvp/LICENSE'', File [9]),
     (''/repo/deps/open-color/open-color.css'', File [10]),
     (''/repo/deps/open-color/LICENSE'', File [11]),
     (''/repo/icons'', Dir [(''icon.svg'', File [12])]),
     (''/repo/images'', Dir []),
     (''/repo/popup'', Dir [(''popup.html'', File [13]), (''popup.js'', File [14])]),
     (''/repo/settings'', Dir [(''settings.html'', File [15])]),
     (''/repo/shared'', Dir [(''util.js'', File [16])]),
     (''/repo/LICENSE'', File [17]),
     (''/repo/manifest.json'', File [18])]"

definition two_subdirs :: node where
  "two_subdirs = Dir [(''x'', Dir [(''a.js'', File [1])]), (''y'', Dir [(''b.js'', File [2])])]"

section \<open>Auxiliary facts\<close>

subsection \<open>One call\<close>

lemma add_dir_eq:
  "add_dir sd fs d st = add_dir_to_target_dir (fs (sd @ ''/'' @ d)) (sd @ ''/'' @ d) d st"
  by (simp add: add_dir_def Let_def)

lemma add_file_eq:
  "add_file sd fs f st = output_file_write (fs (sd @ ''/'' @ f)) (sd @ ''/'' @ f) f st"
  by (simp add: add_file_def Let_def)

lemma output_file_write_Inr:
  "output_file_write nd fn an st = Inr st' \<longleftrightarrow>
     (\<not> closed st \<and> (\<exists>n. nd = Some n \<and> st' = st\<lparr>output_file := output_file st @ [zip_entry n an]\<rparr>))"
  by (auto simp: output_file_write_def split: option.splits)

lemma print_fields [simp]:
  "output_file (print l st) = output_file st" "closed (print l st) = closed st"
  by (simp_all add: print_def)

lemma for_filenames_Inr:
  "for_filenames es dp t fns st = Inr st' \<Longrightarrow>
     closed st' = closed st \<and>
     (\<exists>new. output_file st' = output_file st @ new \<and>
        list_all2 (\<lambda>f e. \<exists>n. map_of es f = Some n \<and> e = zip_entry n (t @ ''/'' @ f)) fns new)"
proof (induction fns arbitrary: st)
  case Nil
  then show ?case by simp
next
  case (Cons f fns)
  let ?st1 = "print (''Writing file: '' @ quoted (dp @ ''/'' @ f) @ '' -> '' @ quoted (t @ ''/'' @ f)) st"
  from Cons.prems obtain st2 where
    w: "output_file_write (map_of es f) (dp @ ''/'' @ f) (t @ ''/'' @ f) ?st1 = Inr st2"
    and r: "for_filenames es dp t fns st2 = Inr st'"
    by (auto simp: Let_def split: sum.splits)
  from w obtain n where n: "map_of es f = Some n" "\<not> closed st"
    "st2 = ?st1\<lparr>output_file := output_file ?st1 @ [zip_entry n (t @ ''/'' @ f)]\<rparr>"
    by (auto simp: output_file_write_Inr)
  from Cons.IH[OF r] obtain new where new: "closed st' = closed st2"
    "output_file st' = output_file st2 @ new"
    "list_all2 (\<lambda>f e. \<exists>n. map_of es f = Some n \<and> e = zip_entry n (t @ ''/'' @ f)) fns new"
    by blast
  show ?case
    using n new by (intro conjI exI[of _ "zip_entry n (t @ ''/'' @ f) # new"]) auto
qed

lemma join_path_append: "join_path b (cs @ [c]) = join_path b cs @ ''/'' @ c"
  by (induction cs arbitrary: b) auto

lemma prefix_join_path: "prefix b (join_path b cs)"
proof (induction cs arbitrary: b)
  case (Cons c cs)
  have "prefix b (b @ ''/'' @ c)" by simp
  moreover have "prefix (b @ ''/'' @ c) (join_path (b @ ''/'' @ c) cs)" by (rule Cons)
  ultimately have "prefix b (join_path (b @ ''/'' @ c) cs)" by (rule prefix_order.trans)
  then show ?case by simp
qed simp

lemma join_path_shift: "join_path (a @ b) cs = a @ join_path b cs"
  by (induction cs arbitrary: b) simp_all

lemma fst_zip_entry_prefix: "prefix arcname (fst (zip_entry n arcname))"
  by (cases n) simp_all

lemma fst_zip_entry_cases: "fst (zip_entry n arcname) = arcname \<or> fst (zip_entry n arcname) = arcname @ ''/''"
  by (cases n) simp_all

subsection \<open>What a successful \<^verbatim>\<open>add_dir_to_target_dir\<close> has done\<close>

text \<open>
  It has left the handle as it was and appended entries, each of them made from a node
  strictly below the source directory, under the name that mirrors the way down.
\<close>

lemma add_dir_to_target_dir_Inr:
  "add_dir_to_target_dir on_disk s t st = Inr st' \<Longrightarrow>
     closed st' = closed st \<and>
     (\<exists>new. output_file st' = output_file st @ new \<and> (\<forall>e \<in> set new. written_from on_disk t e))"
proof (induction on_disk s t st arbitrary: st' rule: add_dir_to_target_dir.induct)
  case (1 es s t st)
  show ?case
  proof (cases "dirnames_of es")
    case Nil
    with "1.prems" have f: "for_filenames es s t (filenames_of es) st = Inr st'"
      by (simp add: for_dirnames_first)
    from for_filenames_Inr[OF f] obtain new where new: "closed st' = closed st"
      "output_file st' = output_file st @ new"
      "list_all2 (\<lambda>f e. \<exists>n. map_of es f = Some n \<and> e = zip_entry n (t @ ''/'' @ f)) (filenames_of es) new"
      by blast
    have "written_from (Some (Dir es)) t e" if "e \<in> set new" for e
    proof -
      from that new(3) obtain f n where "map_of es f = Some n" "e = zip_entry n (t @ ''/'' @ f)"
        by (auto simp: list_all2_conv_all_nth in_set_conv_nth)
      then show ?thesis
        unfolding written_from_def by (intro exI[of _ "[f]"] exI[of _ n]) simp
    qed
    with new show ?thesis by blast
  next
    case (Cons d ds)
    let ?s1 = "print (''Writing dir: '' @ quoted (s @ ''/'' @ d) @ '' -> '' @ quoted (t @ ''/'' @ d)) st"
    from "1.prems" Cons obtain st1 where
      sub: "add_dir_to_target_dir (map_of es d) (s @ ''/'' @ d) (t @ ''/'' @ d) ?s1 = Inr st1"
      and f: "for_filenames es s t (filenames_of es) st1 = Inr st'"
      by (auto simp: for_dirnames_first Let_def split: sum.splits)
    have d: "d \<in> set (dirnames_of es)" using Cons by simp
    from "1.IH"[OF d refl refl refl sub] obtain new1 where new1: "closed st1 = closed st"
      "output_file st1 = output_file st @ new1"
      "\<forall>e \<in> set new1. written_from (map_of es d) (t @ ''/'' @ d) e"
      by auto
    from for_filenames_Inr[OF f] obtain new2 where new2: "closed st' = closed st1"
      "output_file st' = output_file st1 @ new2"
      "list_all2 (\<lambda>f e. \<exists>n. map_of es f = Some n \<and> e = zip_entry n (t @ ''/'' @ f)) (filenames_of es) new2"
      by blast
    have a: "written_from (Some (Dir es)) t e" if "e \<in> set new1" for e
    proof -
      from that new1(3) obtain comps n where "comps \<noteq> []" "resolve (map_of es d) comps = Some n"
        "e = zip_entry n (join_path (t @ ''/'' @ d) comps)"
        unfolding written_from_def by blast
      then show ?thesis
        unfolding written_from_def by (intro exI[of _ "d # comps"] exI[of _ n]) simp
    qed
    have b: "written_from (Some (Dir es)) t e" if "e \<in> set new2" for e
    proof -
      from that new2(3) obtain f n where "map_of es f = Some n" "e = zip_entry n (t @ ''/'' @ f)"
        by (auto simp: list_all2_conv_all_nth in_set_conv_nth)
      then show ?thesis
        unfolding written_from_def by (intro exI[of _ "[f]"] exI[of _ n]) simp
    qed
    show ?thesis
      using new1(1,2) new2(1,2) a b by (intro conjI exI[of _ "new1 @ new2"]) auto
  qed
qed simp_all

lemma written_from_prefix:
  assumes "written_from on_disk t e" shows "prefix (t @ ''/'') (fst e)"
proof -
  from assms obtain c cs n where e: "e = zip_entry n (join_path t (c # cs))"
    unfolding written_from_def by (metis list.exhaust)
  have "prefix (t @ ''/'') ((t @ ''/'') @ c)" by (rule prefixI) simp
  also have "prefix \<dots> (join_path ((t @ ''/'') @ c) cs)" by (rule prefix_join_path)
  also have "prefix \<dots> (fst e)" unfolding e by (simp add: fst_zip_entry_prefix)
  finally show ?thesis .
qed

subsection \<open>\<^verbatim>\<open>add_dir_to_target_dir\<close> does not raise while the archive is open\<close>

lemma for_filenames_total:
  "\<not> closed st \<Longrightarrow> set fns \<subseteq> fst ` set es \<Longrightarrow> \<exists>st'. for_filenames es dp t fns st = Inr st'"
proof (induction fns arbitrary: st)
  case (Cons f fns)
  let ?st1 = "print (''Writing file: '' @ quoted (dp @ ''/'' @ f) @ '' -> '' @ quoted (t @ ''/'' @ f)) st"
  from Cons.prems obtain n where n: "map_of es f = Some n"
    by (cases "map_of es f") (auto simp: map_of_eq_None_iff)
  let ?st2 = "?st1\<lparr>output_file := output_file ?st1 @ [zip_entry n (t @ ''/'' @ f)]\<rparr>"
  have w: "output_file_write (map_of es f) (dp @ ''/'' @ f) (t @ ''/'' @ f) ?st1 = Inr ?st2"
    using Cons.prems n by (simp add: output_file_write_def)
  have "\<not> closed ?st2" using Cons.prems by simp
  from Cons.IH[OF this] Cons.prems obtain st' where "for_filenames es dp t fns ?st2 = Inr st'"
    by auto
  with w show ?case by (simp add: Let_def)
qed simp

lemma filenames_of_subset: "set (filenames_of es) \<subseteq> fst ` set es"
  by (auto simp: filenames_of_def)

lemma add_dir_to_target_dir_total:
  "\<not> closed st \<Longrightarrow> \<exists>st'. add_dir_to_target_dir on_disk s t st = Inr st'"
proof (induction on_disk s t st rule: add_dir_to_target_dir.induct)
  case (1 es s t st)
  show ?case
  proof (cases "dirnames_of es")
    case Nil
    then show ?thesis
      using for_filenames_total[OF "1.prems" filenames_of_subset, of es s t]
      by (simp add: for_dirnames_first)
  next
    case (Cons d ds)
    let ?s1 = "print (''Writing dir: '' @ quoted (s @ ''/'' @ d) @ '' -> '' @ quoted (t @ ''/'' @ d)) st"
    have d: "d \<in> set (dirnames_of es)" using Cons by simp
    have "\<not> closed ?s1" using "1.prems" by simp
    from "1.IH"[OF d refl refl refl this] obtain st1 where
      sub: "add_dir_to_target_dir (map_of es d) (s @ ''/'' @ d) (t @ ''/'' @ d) ?s1 = Inr st1"
      by blast
    from add_dir_to_target_dir_Inr[OF sub] "1.prems" have "\<not> closed st1" by simp
    from for_filenames_total[OF this filenames_of_subset, of es s t] obtain st' where
      "for_filenames es s t (filenames_of es) st1 = Inr st'" by blast
    with sub Cons show ?thesis
      by (simp add: for_dirnames_first Let_def)
  qed
qed simp_all

subsection \<open>On a well-formed tree the names written are pairwise different\<close>

lemma filename_resolves_to_file:
  assumes "distinct (map fst es)" "f \<in> set (filenames_of es)" "map_of es f = Some n"
  shows "\<exists>data. n = File data"
proof -
  from assms(2) obtain n' where n': "(f, n') \<in> set es" "\<not> is_dir n'"
    by (auto simp: filenames_of_def)
  with assms(1) have "map_of es f = Some n'" by simp
  with assms(3) n'(2) show ?thesis by (cases n) (auto simp: is_dir_def)
qed

lemma file_entry_names:
  assumes "distinct (map fst es)"
    and "list_all2 (\<lambda>f e. \<exists>n. map_of es f = Some n \<and> e = zip_entry n (t @ ''/'' @ f)) fns new"
    and "set fns \<subseteq> set (filenames_of es)"
  shows "map fst new = map (\<lambda>f. t @ ''/'' @ f) fns"
  using assms(2,3)
proof (induction rule: list_all2_induct)
  case (Cons f fns e new)
  from Cons.hyps(1) obtain n where n: "map_of es f = Some n" "e = zip_entry n (t @ ''/'' @ f)"
    by blast
  from filename_resolves_to_file[OF assms(1) _ n(1)] Cons.prems obtain data where "n = File data"
    by auto
  with n Cons show ?case by simp
qed simp

lemma wf_child:
  assumes "wf_node (Dir es)" shows "wf_on_disk (map_of es d)"
proof (cases "map_of es d")
  case (Some c)
  then have "(d, c) \<in> set es" by (rule map_of_SomeD)
  with assms Some show ?thesis by (auto simp: wf_on_disk_def)
qed (simp add: wf_on_disk_def)

lemma distinct_filenames_of: "distinct (map fst es) \<Longrightarrow> distinct (filenames_of es)"
  by (simp add: filenames_of_def distinct_map_filter)

lemma filenames_no_slash:
  "wf_node (Dir es) \<Longrightarrow> f \<in> set (filenames_of es) \<Longrightarrow> CHR ''/'' \<notin> set f"
  by (auto simp: filenames_of_def)

lemma add_dir_to_target_dir_distinct:
  "add_dir_to_target_dir on_disk s t st = Inr st' \<Longrightarrow> wf_on_disk on_disk \<Longrightarrow>
     \<exists>rs. map fst (drop (length (output_file st)) (output_file st')) = map (\<lambda>r. t @ ''/'' @ r) rs
          \<and> distinct rs"
proof (induction on_disk s t st arbitrary: st' rule: add_dir_to_target_dir.induct)
  case (1 es s t st)
  from "1.prems"(2) have wf: "wf_node (Dir es)" by (simp add: wf_on_disk_def)
  then have dist: "distinct (map fst es)" by simp
  show ?case
  proof (cases "dirnames_of es")
    case Nil
    with "1.prems" have f: "for_filenames es s t (filenames_of es) st = Inr st'"
      by (simp add: for_dirnames_first)
    from for_filenames_Inr[OF f] obtain new where new:
      "output_file st' = output_file st @ new"
      "list_all2 (\<lambda>f e. \<exists>n. map_of es f = Some n \<and> e = zip_entry n (t @ ''/'' @ f)) (filenames_of es) new"
      by blast
    from file_entry_names[OF dist new(2)] new(1) distinct_filenames_of[OF dist]
    show ?thesis by (intro exI[of _ "filenames_of es"]) simp
  next
    case (Cons d ds)
    let ?s1 = "print (''Writing dir: '' @ quoted (s @ ''/'' @ d) @ '' -> '' @ quoted (t @ ''/'' @ d)) st"
    from "1.prems" Cons obtain st1 where
      sub: "add_dir_to_target_dir (map_of es d) (s @ ''/'' @ d) (t @ ''/'' @ d) ?s1 = Inr st1"
      and f: "for_filenames es s t (filenames_of es) st1 = Inr st'"
      by (auto simp: for_dirnames_first Let_def split: sum.splits)
    have d: "d \<in> set (dirnames_of es)" using Cons by simp
    from add_dir_to_target_dir_Inr[OF sub] obtain new1 where new1:
      "output_file st1 = output_file st @ new1" by auto
    from "1.IH"[OF d refl refl refl sub wf_child[OF wf]] new1 obtain rs1 where rs1:
      "map fst new1 = map (\<lambda>r. (t @ ''/'' @ d) @ ''/'' @ r) rs1" "distinct rs1"
      by auto
    from for_filenames_Inr[OF f] obtain new2 where new2:
      "output_file st' = output_file st1 @ new2"
      "list_all2 (\<lambda>f e. \<exists>n. map_of es f = Some n \<and> e = zip_entry n (t @ ''/'' @ f)) (filenames_of es) new2"
      by blast
    have n2: "map fst new2 = map (\<lambda>f. t @ ''/'' @ f) (filenames_of es)"
      by (rule file_entry_names[OF dist new2(2)]) simp
    let ?rs = "map (\<lambda>r. d @ ''/'' @ r) rs1 @ filenames_of es"
    have "distinct (map (\<lambda>r. d @ ''/'' @ r) rs1)"
      using rs1(2) by (simp add: distinct_map inj_on_def)
    moreover have "r \<notin> set (filenames_of es)" if "r \<in> set (map (\<lambda>r. d @ ''/'' @ r) rs1)" for r
    proof
      assume "r \<in> set (filenames_of es)"
      then have "CHR ''/'' \<notin> set r" by (rule filenames_no_slash[OF wf])
      with that show False by auto
    qed
    ultimately have "distinct ?rs"
      using distinct_filenames_of[OF dist] by (auto simp del: set_map)
    moreover have "map fst (drop (length (output_file st)) (output_file st')) = map (\<lambda>r. t @ ''/'' @ r) ?rs"
      using new1 new2(1) rs1(1) n2 by simp
    ultimately show ?thesis by blast
  qed
qed simp_all

subsection \<open>The calls of the module body\<close>

lemma exec_call_Inr:
  assumes "exec_call sd fs c st = Inr st'"
  shows "closed st' = closed st \<and>
     (\<exists>new. output_file st' = output_file st @ new \<and> (\<forall>e \<in> set new. written_by sd fs c e))"
proof (cases c)
  case (AddDir d)
  with assms have "add_dir_to_target_dir (fs (sd @ ''/'' @ d)) (sd @ ''/'' @ d) d st = Inr st'"
    by (simp add: add_dir_eq)
  from add_dir_to_target_dir_Inr[OF this] show ?thesis
    unfolding written_from_def written_by_def AddDir by simp
next
  case (AddFile f)
  with assms obtain n where "fs (sd @ ''/'' @ f) = Some n"
    "st' = st\<lparr>output_file := output_file st @ [zip_entry n f]\<rparr>"
    by (auto simp: add_file_eq output_file_write_Inr)
  then show ?thesis
    unfolding written_by_def AddFile by (intro conjI exI[of _ "[zip_entry n f]"]) auto
qed

lemma exec_call_Inl:
  assumes "exec_call sd fs c st = Inl e" "\<not> closed st"
  shows "\<exists>f. c = AddFile f \<and> e = FileNotFoundError (sd @ ''/'' @ f) \<and> fs (sd @ ''/'' @ f) = None"
proof (cases c)
  case (AddDir d)
  with assms add_dir_to_target_dir_total[OF assms(2), of "fs (sd @ ''/'' @ d)" "sd @ ''/'' @ d" d]
  show ?thesis by (auto simp: add_dir_eq)
next
  case (AddFile f)
  with assms show ?thesis
    by (auto simp: add_file_eq output_file_write_def split: option.splits)
qed

lemma written_by_owned:
  assumes "written_by sd fs c e" shows "owned c (fst e)"
proof (cases c)
  case (AddDir d)
  with assms have "written_from (fs (sd @ ''/'' @ d)) d e"
    unfolding written_by_def written_from_def by auto
  then show ?thesis unfolding AddDir by (simp add: written_from_prefix)
next
  case (AddFile f)
  with assms obtain n where "e = zip_entry n f" unfolding written_by_def by auto
  then show ?thesis unfolding AddFile using fst_zip_entry_cases[of n f] by auto
qed

lemma apart_owned:
  assumes "apart c c'" "owned c name" shows "\<not> owned c' name"
proof (cases c; cases c')
  fix d d' assume c: "c = AddDir d" "c' = AddDir d'"
  show ?thesis
  proof
    assume "owned c' name"
    with assms(2) c have "prefix (d @ ''/'') name" "prefix (d' @ ''/'') name" by simp_all
    then have "prefix (d @ ''/'') (d' @ ''/'') \<or> prefix (d' @ ''/'') (d @ ''/'')"
      by (rule prefix_same_cases)
    with assms(1) c show False by simp
  qed
next
  fix d f assume c: "c = AddDir d" "c' = AddFile f"
  with assms show ?thesis by auto
next
  fix d f assume c: "c = AddFile f" "c' = AddDir d"
  with assms show ?thesis by auto
next
  fix f f' assume c: "c = AddFile f" "c' = AddFile f'"
  with assms show ?thesis by auto
qed

lemma owned_prefix:
  assumes "owned c name" "prefix p name"
  shows "case c of AddDir d \<Rightarrow> prefix (d @ ''/'') p \<or> prefix p (d @ ''/'')
                 | AddFile f \<Rightarrow> prefix p (f @ ''/'')"
proof (cases c)
  case (AddDir d)
  with assms have "prefix (d @ ''/'') name" by simp
  from prefix_same_cases[OF this assms(2)] AddDir show ?thesis by simp
next
  case (AddFile f)
  with assms(1) have "prefix name (f @ ''/'')" by auto
  with assms(2) have "prefix p (f @ ''/'')" by (rule prefix_order.trans)
  with AddFile show ?thesis by simp
qed

lemma exec_call_distinct:
  assumes "exec_call sd fs c st = Inr st'" "wf_on_disk (fs (sd @ ''/'' @ call_path c))"
  shows "distinct (map fst (drop (length (output_file st)) (output_file st')))"
proof (cases c)
  case (AddDir d)
  with assms have run: "add_dir_to_target_dir (fs (sd @ ''/'' @ d)) (sd @ ''/'' @ d) d st = Inr st'"
    and wf: "wf_on_disk (fs (sd @ ''/'' @ d))"
    by (simp_all add: add_dir_eq)
  from add_dir_to_target_dir_distinct[OF run wf] obtain rs where
    "map fst (drop (length (output_file st)) (output_file st')) = map (\<lambda>r. d @ ''/'' @ r) rs"
    "distinct rs" by blast
  then show ?thesis by (simp add: distinct_map inj_on_def)
next
  case (AddFile f)
  with assms(1) show ?thesis
    by (auto simp: add_file_eq output_file_write_Inr)
qed

lemma exec_calls_Inr:
  "exec_calls sd fs cs st = Inr st' \<Longrightarrow>
     closed st' = closed st \<and>
     (\<exists>new. output_file st' = output_file st @ new \<and>
        (\<forall>e \<in> set new. \<exists>c \<in> set cs. written_by sd fs c e))"
proof (induction cs arbitrary: st)
  case Nil
  then show ?case by simp
next
  case (Cons c cs)
  from Cons.prems obtain st1 where 1: "exec_call sd fs c st = Inr st1"
    and 2: "exec_calls sd fs cs st1 = Inr st'"
    by (auto split: sum.splits)
  from exec_call_Inr[OF 1] obtain new1 where new1: "closed st1 = closed st"
    "output_file st1 = output_file st @ new1" "\<forall>e \<in> set new1. written_by sd fs c e"
    by blast
  from Cons.IH[OF 2] obtain new2 where new2: "closed st' = closed st1"
    "output_file st' = output_file st1 @ new2" "\<forall>e \<in> set new2. \<exists>c \<in> set cs. written_by sd fs c e"
    by blast
  show ?case using new1 new2 by (intro conjI exI[of _ "new1 @ new2"]) auto
qed

lemma exec_calls_distinct:
  "exec_calls sd fs cs st = Inr st' \<Longrightarrow> pairwise_apart cs \<Longrightarrow>
   \<forall>c \<in> set cs. wf_on_disk (fs (sd @ ''/'' @ call_path c)) \<Longrightarrow>
   distinct (map fst (output_file st)) \<Longrightarrow>
   \<forall>name \<in> set (map fst (output_file st)). \<forall>c \<in> set cs. \<not> owned c name \<Longrightarrow>
   distinct (map fst (output_file st'))"
proof (induction cs arbitrary: st)
  case Nil
  then show ?case by simp
next
  case (Cons c cs)
  from Cons.prems(1) obtain st1 where 1: "exec_call sd fs c st = Inr st1"
    and 2: "exec_calls sd fs cs st1 = Inr st'"
    by (auto split: sum.splits)
  from exec_call_Inr[OF 1] obtain new1 where new1:
    "output_file st1 = output_file st @ new1" "\<forall>e \<in> set new1. written_by sd fs c e"
    by blast
  have own: "owned c name" if "name \<in> set (map fst new1)" for name
    using that new1(2) written_by_owned by auto
  have d1: "distinct (map fst new1)"
    using exec_call_distinct[OF 1] Cons.prems(3) new1(1) by simp
  have disj: "set (map fst (output_file st)) \<inter> set (map fst new1) = {}"
    using own Cons.prems(5) by auto
  have a: "distinct (map fst (output_file st1))"
    using Cons.prems(4) d1 disj unfolding new1(1) by simp
  have b: "\<forall>name \<in> set (map fst (output_file st1)). \<forall>c' \<in> set cs. \<not> owned c' name"
  proof (intro ballI)
    fix name c' assume n: "name \<in> set (map fst (output_file st1))" and c': "c' \<in> set cs"
    from n new1(1) consider "name \<in> set (map fst (output_file st))" | "name \<in> set (map fst new1)"
      by auto
    then show "\<not> owned c' name"
    proof cases
      case 1
      with Cons.prems(5) c' show ?thesis by auto
    next
      case 2
      from Cons.prems(2) c' have "apart c c'" by simp
      from apart_owned[OF this own[OF 2]] show ?thesis .
    qed
  qed
  from Cons.prems(2,3) have "pairwise_apart cs" "\<forall>c \<in> set cs. wf_on_disk (fs (sd @ ''/'' @ call_path c))"
    by simp_all
  from Cons.IH[OF 2 this a b] show ?case .
qed


lemma exec_calls_missing_file:
  "AddFile f \<in> set cs \<Longrightarrow> fs (sd @ ''/'' @ f) = None \<Longrightarrow> \<not> closed st \<Longrightarrow>
     \<exists>p. exec_calls sd fs cs st = Inl (FileNotFoundError p) \<and> fs p = None"
proof (induction cs arbitrary: st)
  case Nil
  then show ?case by simp
next
  case (Cons c cs)
  show ?case
  proof (cases "exec_call sd fs c st")
    case (Inl e)
    from exec_call_Inl[OF Inl Cons.prems(3)] Inl show ?thesis by auto
  next
    case (Inr st1)
    have "c \<noteq> AddFile f"
    proof
      assume "c = AddFile f"
      with Inr Cons.prems(2,3) show False
        by (simp add: add_file_eq output_file_write_def)
    qed
    with Cons.prems(1) have in_cs: "AddFile f \<in> set cs" by simp
    from exec_call_Inr[OF Inr] Cons.prems(3) have "\<not> closed st1" by simp
    from Cons.IH[OF in_cs Cons.prems(2) this] Inr show ?thesis by simp
  qed
qed

subsection \<open>The run on the example disk\<close>

lemmas eval_defs = add_dir_eq add_file_eq for_dirnames_first dirnames_of_def filenames_of_def
  is_dir_def output_file_write_def print_def quoted_def entries_def initial_state_def

lemma example_package:
  "\<exists>st. package ''/repo'' example_fs = Inr st \<and> \<not> closed st \<and> output_file st =
     [(''archive/sub/b.js'', [2]), (''archive/a.js'', [1]),
      (''background/background.js'', [3]), (''deps/dexie/dist/dexie.js'', [4]),
      (''deps/dexie/LICENSE'', [5]), (''deps/jexl/jexl.bundle.js'', [6]),
      (''deps/jexl/LICENSE.txt'', [7]), (''deps/mvp/mvp.css'', [8]),
      (''deps/mvp/LICENSE'', [9]), (''deps/open-color/open-color.css'', [10]),
      (''deps/open-color/LICENSE'', [11]), (''icons/icon.svg'', [12]),
      (''popup/popup.html'', [13]), (''popup/popup.js'', [14]),
      (''settings/settings.html'', [15]), (''shared/util.js'', [16]),
      (''manifest.json'', [18])]"
  by (simp add: package_def module_body_def example_fs_def eval_defs)

lemma example_fs_wf: "\<forall>c \<in> set module_body. wf_on_disk (example_fs (''/repo'' @ ''/'' @ call_path c))"
  by (simp add: module_body_def example_fs_def wf_on_disk_def)

lemma pairwise_apart_module_body: "pairwise_apart module_body"
  by (simp add: module_body_def)

lemma only_LICENSE_call_owns_LICENSE:
  "\<forall>c \<in> set module_body. c \<noteq> AddDir ''LICENSE'' \<longrightarrow>
     \<not> (case c of AddDir d \<Rightarrow> prefix (d @ ''/'') ''LICENSE'' \<or> prefix ''LICENSE'' (d @ ''/'')
                 | AddFile f \<Rightarrow> prefix ''LICENSE'' (f @ ''/''))"
  by (simp add: module_body_def)

section \<open>The claims\<close>

text \<open>
  Claim C1. For every call \<^verbatim>\<open>add_directory(source_dir, target_dir)\<close> on an existing
  directory tree, every regular file reachable by recursive descent from the source
  directory is in the archive at the corresponding path under the target directory, for
  every immediate subdirectory of every directory visited.

  The code does not do this. On a directory \<^verbatim>\<open>archive\<close> with the two subdirectories
  \<^verbatim>\<open>x\<close> (holding \<^verbatim>\<open>a.js\<close>) and \<^verbatim>\<open>y\<close> (holding \<^verbatim>\<open>b.js\<close>) it writes
  \<^verbatim>\<open>archive/x/a.js\<close> only, while \<^verbatim>\<open>archive/y/b.js\<close> is reachable: the loop over
  \<^verbatim>\<open>dirnames\<close> empties the list in its first round (\<open>for_dirnames_first\<close>).
\<close>

theorem C1_only_first_subdirectory_is_copied:
  "entries (add_dir_to_target_dir (Some two_subdirs) ''archive'' ''archive'' initial_state)
     = [(''archive/x/a.js'', [1])]
   \<and> reachable_files two_subdirs ''archive'' = [(''archive/x/a.js'', [1]), (''archive/y/b.js'', [2])]"
  by (simp add: two_subdirs_def eval_defs)

text \<open>
  Claim C2, as amended. A source path that does not exist makes \<^verbatim>\<open>add_file\<close> raise
  \<^verbatim>\<open>FileNotFoundError\<close> for that path, and the run ends there: a run whose remaining
  calls contain an \<^verbatim>\<open>add_file\<close> of a missing path ends in a not-found error for a
  missing path (so does the run with \<^verbatim>\<open>manifest.json\<close> missing). \<^verbatim>\<open>add_dir\<close> on
  a path that does not exist raises nothing: it writes no entry, leaves the state as it
  was, and the run goes on with the next call. (The archive is open.)

  The claim as stated also asks for a not-found error from \<^verbatim>\<open>add_directory\<close>; the
  counterexample below is \<^verbatim>\<open>add_dir("archive")\<close> on an empty disk.
\<close>

theorem C2_missing_source_path:
  assumes "fs (self_dirname @ ''/'' @ rel) = None" and "\<not> closed st"
  shows "add_file self_dirname fs rel st = Inl (FileNotFoundError (self_dirname @ ''/'' @ rel))
       \<and> exec_calls self_dirname fs (AddFile rel # cs) st
           = Inl (FileNotFoundError (self_dirname @ ''/'' @ rel))
       \<and> (AddFile rel \<in> set cs \<longrightarrow>
            (\<exists>p. exec_calls self_dirname fs cs st = Inl (FileNotFoundError p) \<and> fs p = None))
       \<and> add_dir self_dirname fs rel st = Inr st
       \<and> exec_calls self_dirname fs (AddDir rel # cs) st = exec_calls self_dirname fs cs st"
  using assms exec_calls_missing_file[of rel cs fs self_dirname st]
  by (simp add: add_file_eq add_dir_eq output_file_write_def)

theorem C2_missing_source_path_witness:
  "add_file ''/repo'' (example_fs(''/repo/manifest.json'' := None)) ''manifest.json'' initial_state
     = Inl (FileNotFoundError ''/repo/manifest.json'')
   \<and> (\<exists>p. package ''/repo'' (example_fs(''/repo/manifest.json'' := None)) = Inl (FileNotFoundError p))
   \<and> add_dir ''/repo'' (example_fs(''/repo/manifest.json'' := None)) ''manifest.json'' initial_state
     = Inr initial_state"
proof -
  have 1: "(example_fs(''/repo/manifest.json'' := None)) (''/repo'' @ ''/'' @ ''manifest.json'') = None"
    by simp
  have 2: "\<not> closed initial_state" by (simp add: initial_state_def)
  have 3: "AddFile ''manifest.json'' \<in> set module_body" by (simp add: module_body_def)
  from C2_missing_source_path[where fs = "example_fs(''/repo/manifest.json'' := None)"
      and self_dirname = "''/repo''" and rel = "''manifest.json''" and st = initial_state
      and cs = module_body, OF 1 2] 3
  show ?thesis unfolding package_def by auto
qed

theorem C2_missing_directory_counterexample:
  "add_dir ''/repo'' Map.empty ''archive'' initial_state = Inr initial_state
   \<and> exec_calls ''/repo'' Map.empty [AddDir ''archive'', AddDir ''background''] initial_state
       = Inr initial_state"
  by (simp add: add_dir_eq)



text \<open>
  Claim C4. For the source tree with exactly the regular files \<^verbatim>\<open>archive/a.js\<close> and
  \<^verbatim>\<open>archive/sub/b.js\<close>, \<^verbatim>\<open>add_directory("archive", "archive")\<close> produces the
  entries \<^verbatim>\<open>archive/a.js\<close> and \<^verbatim>\<open>archive/sub/b.js\<close> and nothing else. This holds
  for both orders in which the directory can be listed, for any contents, and for
  \<^verbatim>\<open>add_dir("archive")\<close> on the example disk; the entry of the subdirectory comes
  first.
\<close>

theorem C4_archive_scenario:
  "entries (add_dir_to_target_dir (Some (Dir [(''a.js'', File a), (''sub'', Dir [(''b.js'', File b)])]))
              ''archive'' ''archive'' initial_state)
     = [(''archive/sub/b.js'', b), (''archive/a.js'', a)]
   \<and> entries (add_dir_to_target_dir (Some (Dir [(''sub'', Dir [(''b.js'', File b)]), (''a.js'', File a)]))
              ''archive'' ''archive'' initial_state)
     = [(''archive/sub/b.js'', b), (''archive/a.js'', a)]
   \<and> entries (add_dir ''/repo'' example_fs ''archive'' initial_state)
     = [(''archive/sub/b.js'', [2]), (''archive/a.js'', [1])]"
  by (simp add: example_fs_def eval_defs)

text \<open>
  Claim C5, as amended. After a successful run every entry name is the path of its
  source relative to the script's directory, without exception: the name is the path of
  one call of the module body followed by the names on the way down to the node written,
  and \<^verbatim>\<open>self_dirname + "/" + name\<close> is the path of that node on disk. No dependency
  subpath is remapped or shortened.

  The claim as stated says that the dexie distribution directory appears under a shorter
  path than its source location; on the example disk the file
  \<^verbatim>\<open>/repo/deps/dexie/dist/dexie.js\<close> is in the archive as
  \<^verbatim>\<open>deps/dexie/dist/dexie.js\<close>.
\<close>

theorem C5_entry_names_mirror_source_paths:
  assumes "package self_dirname fs = Inr st" and "(name, data) \<in> set (output_file st)"
  shows "\<exists>c \<in> set module_body. \<exists>comps n.
           resolve (fs (self_dirname @ ''/'' @ call_path c)) comps = Some n
         \<and> (name, data) = zip_entry n (join_path (call_path c) comps)
         \<and> self_dirname @ ''/'' @ join_path (call_path c) comps
             = join_path (self_dirname @ ''/'' @ call_path c) comps"
proof -
  from assms(1) have "exec_calls self_dirname fs module_body initial_state = Inr st"
    by (simp add: package_def)
  from exec_calls_Inr[OF this] assms(2)
  obtain c where c: "c \<in> set module_body" "written_by self_dirname fs c (name, data)"
    by (auto simp: initial_state_def)
  then obtain comps n where
    "resolve (fs (self_dirname @ ''/'' @ call_path c)) comps = Some n"
    "(name, data) = zip_entry n (join_path (call_path c) comps)"
    unfolding written_by_def by blast
  moreover have "self_dirname @ ''/'' @ join_path (call_path c) comps
      = join_path (self_dirname @ ''/'' @ call_path c) comps"
    using join_path_shift[of "self_dirname @ ''/''" "call_path c" comps] by simp
  ultimately show ?thesis using c(1) by blast
qed

theorem C5_entry_names_mirror_source_paths_witness:
  "\<exists>c \<in> set module_body. \<exists>comps n.
      resolve (example_fs (''/repo'' @ ''/'' @ call_path c)) comps = Some n
    \<and> (''deps/dexie/dist/dexie.js'', [4]) = zip_entry n (join_path (call_path c) comps)
    \<and> ''/repo'' @ ''/'' @ join_path (call_path c) comps
         = join_path (''/repo'' @ ''/'' @ call_path c) comps"
proof -
  from example_package obtain st where st: "package ''/repo'' example_fs = Inr st"
    and "(''deps/dexie/dist/dexie.js'', [4]) \<in> set (output_file st)"
    by auto
  from C5_entry_names_mirror_source_paths[OF this] show ?thesis .
qed

theorem C5_dexie_dist_not_shortened_counterexample:
  "entries (package ''/repo'' example_fs) =
     [(''archive/sub/b.js'', [2]), (''archive/a.js'', [1]),
      (''background/background.js'', [3]), (''deps/dexie/dist/dexie.js'', [4]),
      (''deps/dexie/LICENSE'', [5]), (''deps/jexl/jexl.bundle.js'', [6]),
      (''deps/jexl/LICENSE.txt'', [7]), (''deps/mvp/mvp.css'', [8]),
      (''deps/mvp/LICENSE'', [9]), (''deps/open-color/open-color.css'', [10]),
      (''deps/open-color/LICENSE'', [11]), (''icons/icon.svg'', [12]),
      (''popup/popup.html'', [13]), (''popup/popup.js'', [14]),
      (''settings/settings.html'', [15]), (''shared/util.js'', [16]),
      (''manifest.json'', [18])]
   \<and> example_fs ''/repo/deps/dexie/dist'' = Some (Dir [(''dexie.js'', File [4])])"
proof -
  have "example_fs ''/repo/deps/dexie/dist'' = Some (Dir [(''dexie.js'', File [4])])"
    by (simp add: example_fs_def)
  with example_package show ?thesis by (auto simp: entries_def)
qed

text \<open>
  Claim C6. After the full run the archive holds no two entries with the same name. The
  trees under the paths of the module body are well-formed, as every tree on a disk is.
\<close>

theorem C6_entry_names_unique:
  assumes "package self_dirname fs = Inr st"
    and "\<forall>c \<in> set module_body. wf_on_disk (fs (self_dirname @ ''/'' @ call_path c))"
  shows "distinct (map fst (output_file st))"
proof -
  from assms(1) have run: "exec_calls self_dirname fs module_body initial_state = Inr st"
    by (simp add: package_def)
  show ?thesis
    by (rule exec_calls_distinct[OF run pairwise_apart_module_body assms(2)])
       (simp_all add: initial_state_def)
qed

theorem C6_entry_names_unique_witness:
  "distinct (map fst (entries (package ''/repo'' example_fs)))"
proof -
  from example_package obtain st where st: "package ''/repo'' example_fs = Inr st" by auto
  from C6_entry_names_unique[OF st example_fs_wf] st show ?thesis
    by (simp add: entries_def)
qed

text \<open>
  Claim C7. Every source path read by \<^verbatim>\<open>add_dir\<close> and \<^verbatim>\<open>add_file\<close> is
  \<^verbatim>\<open>self_dirname + "/" + relative path\<close>: two disks that agree at that path give the
  same result, whatever they hold elsewhere, in particular at the bare relative path. The
  entry names are relative to the archive root: those of \<^verbatim>\<open>add_dir\<close> start with the
  relative path and a separator, that of \<^verbatim>\<open>add_file\<close> is the relative path (followed
  by a separator when the path names a directory).
\<close>

theorem C7_sources_under_script_directory:
  assumes "fs1 (self_dirname @ ''/'' @ rel) = fs2 (self_dirname @ ''/'' @ rel)"
  shows "add_dir self_dirname fs1 rel st = add_dir self_dirname fs2 rel st
       \<and> add_file self_dirname fs1 rel st = add_file self_dirname fs2 rel st
       \<and> (\<forall>st'. add_dir self_dirname fs1 rel st = Inr st' \<longrightarrow>
            (\<forall>e \<in> set (drop (length (output_file st)) (output_file st')). prefix (rel @ ''/'') (fst e)))
       \<and> (\<forall>st'. add_file self_dirname fs1 rel st = Inr st' \<longrightarrow>
            (\<exists>e. output_file st' = output_file st @ [e] \<and> (fst e = rel \<or> fst e = rel @ ''/'')))"
proof (intro conjI allI impI)
  show "add_dir self_dirname fs1 rel st = add_dir self_dirname fs2 rel st"
    using assms by (simp add: add_dir_eq)
  show "add_file self_dirname fs1 rel st = add_file self_dirname fs2 rel st"
    using assms by (simp add: add_file_eq)
next
  fix st' assume "add_dir self_dirname fs1 rel st = Inr st'"
  then have "add_dir_to_target_dir (fs1 (self_dirname @ ''/'' @ rel)) (self_dirname @ ''/'' @ rel) rel st = Inr st'"
    by (simp add: add_dir_eq)
  from add_dir_to_target_dir_Inr[OF this] obtain new where
    "output_file st' = output_file st @ new"
    "\<forall>e \<in> set new. written_from (fs1 (self_dirname @ ''/'' @ rel)) rel e" by blast
  then show "\<forall>e \<in> set (drop (length (output_file st)) (output_file st')). prefix (rel @ ''/'') (fst e)"
    using written_from_prefix by auto
next
  fix st' assume "add_file self_dirname fs1 rel st = Inr st'"
  then obtain n where "st' = st\<lparr>output_file := output_file st @ [zip_entry n rel]\<rparr>"
    by (auto simp: add_file_eq output_file_write_Inr)
  then show "\<exists>e. output_file st' = output_file st @ [e] \<and> (fst e = rel \<or> fst e = rel @ ''/'')"
    using fst_zip_entry_cases[of n rel] by auto
qed

theorem C7_sources_under_script_directory_witness:
  "add_file ''/repo'' example_fs ''manifest.json'' initial_state
     = add_file ''/repo'' (example_fs(''manifest.json'' \<mapsto> File [99])) ''manifest.json'' initial_state
   \<and> add_dir ''/repo'' example_fs ''archive'' initial_state
     = add_dir ''/repo'' (example_fs(''archive'' \<mapsto> Dir [])) ''archive'' initial_state"
proof -
  have 1: "example_fs (''/repo'' @ ''/'' @ ''manifest.json'')
      = (example_fs(''manifest.json'' \<mapsto> File [99])) (''/repo'' @ ''/'' @ ''manifest.json'')"
    by simp
  have 2: "example_fs (''/repo'' @ ''/'' @ ''archive'')
      = (example_fs(''archive'' \<mapsto> Dir [])) (''/repo'' @ ''/'' @ ''archive'')"
    by simp
  from C7_sources_under_script_directory[where ?fs1.0 = example_fs
      and ?fs2.0 = "example_fs(''manifest.json'' \<mapsto> File [99])" and self_dirname = "''/repo''"
      and rel = "''manifest.json''" and st = initial_state, OF 1]
    C7_sources_under_script_directory[where ?fs1.0 = example_fs
      and ?fs2.0 = "example_fs(''archive'' \<mapsto> Dir [])" and self_dirname = "''/repo''"
      and rel = "''archive''" and st = initial_state, OF 2]
  show ?thesis by blast
qed



text \<open>
  Claim C9. No operation of the run closes the archive handle: after any number of the
  calls of the module body the handle opened at the start is still open, and no single
  call changes whether it is closed.
\<close>

theorem C9_archive_handle_stays_open:
  assumes "exec_calls self_dirname fs (take k module_body) initial_state = Inr st"
  shows "\<not> closed st \<and> (\<forall>c s s'. exec_call self_dirname fs c s = Inr s' \<longrightarrow> closed s' = closed s)"
  using exec_calls_Inr[OF assms] exec_call_Inr[of self_dirname fs]
  by (simp add: initial_state_def)

theorem C9_archive_handle_stays_open_witness:
  "\<exists>st. package ''/repo'' example_fs = Inr st \<and> \<not> closed st"
proof -
  from example_package obtain st where st: "package ''/repo'' example_fs = Inr st" by auto
  have "take 17 module_body = module_body" by (simp add: module_body_def)
  with st have "exec_calls ''/repo'' example_fs (take 17 module_body) initial_state = Inr st"
    by (simp add: package_def)
  from C9_archive_handle_stays_open[OF this] st show ?thesis by blast
qed

text \<open>
  Claim C10. \<^verbatim>\<open>add_dir\<close> on a path that exists as a regular file writes no entry and
  raises no error: the state is unchanged and the run goes on. The module body makes
  such a call, \<^verbatim>\<open>add_dir("LICENSE")\<close>; when \<^verbatim>\<open>LICENSE\<close> is a regular file, no
  entry of the finished archive has a name that starts with \<^verbatim>\<open>LICENSE\<close>.
\<close>

theorem C10_add_dir_on_regular_file:
  assumes "fs (self_dirname @ ''/'' @ rel) = Some (File data)"
  shows "add_dir self_dirname fs rel st = Inr st
       \<and> exec_calls self_dirname fs (AddDir rel # cs) st = exec_calls self_dirname fs cs st
       \<and> AddDir ''LICENSE'' \<in> set module_body
       \<and> (\<forall>st'. rel = ''LICENSE'' \<and> package self_dirname fs = Inr st' \<longrightarrow>
            (\<forall>e \<in> set (output_file st'). \<not> prefix ''LICENSE'' (fst e)))"
proof (intro conjI allI impI ballI)
  show 1: "add_dir self_dirname fs rel st = Inr st"
    using assms by (simp add: add_dir_eq)
  show "exec_calls self_dirname fs (AddDir rel # cs) st = exec_calls self_dirname fs cs st"
    using assms by (simp add: add_dir_eq)
  show "AddDir ''LICENSE'' \<in> set module_body" by (simp add: module_body_def)
next
  fix st' e
  assume a: "rel = ''LICENSE'' \<and> package self_dirname fs = Inr st'" and e: "e \<in> set (output_file st')"
  then have "exec_calls self_dirname fs module_body initial_state = Inr st'"
    by (simp add: package_def)
  from exec_calls_Inr[OF this] e obtain c where c: "c \<in> set module_body" "written_by self_dirname fs c e"
    by (auto simp: initial_state_def)
  have ne: "c \<noteq> AddDir ''LICENSE''"
  proof
    assume "c = AddDir ''LICENSE''"
    with c(2) a assms obtain comps n where "comps \<noteq> []" "resolve (Some (File data)) comps = Some n"
      unfolding written_by_def by auto
    then show False by (cases comps) simp_all
  qed
  show "\<not> prefix ''LICENSE'' (fst e)"
  proof
    assume "prefix ''LICENSE'' (fst e)"
    from owned_prefix[OF written_by_owned[OF c(2)] this] only_LICENSE_call_owns_LICENSE c(1) ne
    show False by blast
  qed
qed

theorem C10_add_dir_on_regular_file_witness:
  "add_dir ''/repo'' example_fs ''LICENSE'' initial_state = Inr initial_state
   \<and> list_all (\<lambda>e. \<not> prefix ''LICENSE'' (fst e)) (entries (package ''/repo'' example_fs))"
proof -
  have 1: "example_fs (''/repo'' @ ''/'' @ ''LICENSE'') = Some (File [17])"
    by (simp add: example_fs_def)
  from example_package obtain st where st: "package ''/repo'' example_fs = Inr st" by auto
  from C10_add_dir_on_regular_file[where fs = example_fs and self_dirname = "''/repo''"
      and rel = "''LICENSE''" and st = initial_state and data = "[17]", OF 1] st
  show ?thesis by (simp add: entries_def list_all_iff)
qed

end
